theory Spec2Isabelle
  imports Main "HOL-Library.AList"
begin

section \<open>The environment of the two services\<close>

text \<open>
  The logger (\<^verbatim>\<open>middleware/logger\<close>) and the URL shortener
  (\<^verbatim>\<open>lib/url-shortener.ts\<close>) are two singleton objects. Both read the
  platform: \<^verbatim>\<open>Math.random()\<close>, \<^verbatim>\<open>new Date()\<close>,
  \<^verbatim>\<open>typeof window\<close> and \<^verbatim>\<open>localStorage\<close>. The model
  threads one \<open>world\<close> through every method: the private fields of both objects,
  the content of the two storage keys, and the answers the platform is going to give, as
  sequences that each call consumes from the front. Output to the console is left out.

  A time is the number of milliseconds that \<^verbatim>\<open>new Date(s).getTime()\<close>
  reads back from the text \<^verbatim>\<open>new Date().toISOString()\<close> produced; the
  text itself is not modelled. A count (\<^verbatim>\<open>clicks\<close>, a length) is a
  natural number: the source's doubles are exact on them below \<open>2^53\<close>. A
  string is a list of 8-bit characters, one per code unit; the source only compares
  strings, takes their length and tests their characters for ASCII letters and digits,
  and a string with a code unit above 255 is outside the model.
\<close>

type_synonym time = int

text \<open>
  One result \<open>r\<close> of \<^verbatim>\<open>Math.random()\<close>, by the two things the
  source does with such a number: \<open>floor62 r\<close> is
  \<^verbatim>\<open>Math.floor(r * chars.length)\<close> (the alphabet has 62 characters),
  and \<open>base36 r\<close> is \<^verbatim>\<open>r.toString(36).substr(2, 9)\<close>.
  The platform promises \<open>0 \<le> r < 1\<close>, that is \<open>floor62 r < 62\<close>;
  the theorems that need it say so.
\<close>

record random_number =
  floor62 :: nat
  base36 :: string

datatype level = INFO | WARN | ERROR | DEBUG

text \<open>The values the source puts into the \<^verbatim>\<open>context\<close> of a log entry.\<close>

datatype jvalue = JString string | JNumber nat | JBoolean bool | JUndefined

type_synonym fields = "(string \<times> jvalue) list"

record LogEntry =
  id_log :: string
  timestamp :: time
  level :: level
  message :: string
  context_log :: "fields option"
  userId :: "string option"
  action :: "string option"

record click =
  timestamp_click :: time
  userAgent :: "string option"
  referrer :: "string option"

record ShortenedUrl =
  id_url :: string
  originalUrl :: string
  shortCode :: string
  customCode :: "bool option"
  createdAt :: time
  clicks :: nat
  lastAccessed :: "time option"
  clickHistory :: "click list"

text \<open>
  A JavaScript \<^verbatim>\<open>Map\<close> keeps its keys in insertion order, and
  \<^verbatim>\<open>Array.from(urls.values())\<close> reads them in that order, so the
  mapping is an association list: \<^verbatim>\<open>get\<close> is \<open>map_of\<close>,
  \<^verbatim>\<open>set\<close> is \<open>AList.update\<close> (in place for a key that is
  there, at the end otherwise), \<^verbatim>\<open>delete\<close> is \<open>AList.delete\<close>,
  and \<^verbatim>\<open>size\<close> is the length, the keys being distinct.
\<close>

type_synonym url_map = "(string \<times> ShortenedUrl) list"

text \<open>
  The two keys of \<^verbatim>\<open>localStorage\<close>. The JSON text under a key is
  represented by the value that \<^verbatim>\<open>JSON.parse\<close> reads back from it;
  \<open>None\<close> is a key that is not set. The text differs from the value in memory
  in two ways. \<^verbatim>\<open>JSON.stringify\<close> leaves out a property whose value is
  \<^verbatim>\<open>undefined\<close> (\<open>json_entry\<close>; in a record of the mapping such a
  property is an absent optional field, \<open>None\<close> either way). And the object that
  \<^verbatim>\<open>Object.fromEntries\<close> makes of the mapping lists its keys as every
  object does: first the keys that are array indices (digits only, no leading zero,
  below \<open>2^32 - 1\<close>) in ascending order, then the others in the order they were
  added (\<open>fromEntries\<close>).
\<close>

definition json_fields :: "fields \<Rightarrow> fields" where
  "json_fields fs = filter (\<lambda>(k, v). v \<noteq> JUndefined) fs"

definition json_entry :: "LogEntry \<Rightarrow> LogEntry" where
  "json_entry e = e\<lparr>context_log := map_option json_fields (context_log e)\<rparr>"

definition digit :: "char \<Rightarrow> bool" where
  "digit c = (48 \<le> (of_char c :: int) \<and> (of_char c :: int) \<le> 57)"

definition index_value :: "string \<Rightarrow> int" where
  "index_value k = foldl (\<lambda>n c. 10 * n + (of_char c - 48)) 0 k"

definition array_index :: "string \<Rightarrow> bool" where
  "array_index k =
     (k \<noteq> [] \<and> list_all digit k \<and> (length k = 1 \<or> take 1 k \<noteq> ''0'') \<and>
      index_value k < 2 ^ 32 - 1)"

definition fromEntries :: "(string \<times> 'a) list \<Rightarrow> (string \<times> 'a) list" where
  "fromEntries m =
     sort_key (\<lambda>p. index_value (fst p)) (filter (\<lambda>p. array_index (fst p)) m) @
     filter (\<lambda>p. \<not> array_index (fst p)) m"

record store =
  app_logs :: "LogEntry list option"
  shortened_urls :: "url_map option"

text \<open>
  \<open>storage_fault\<close> lists what the coming accesses to
  \<^verbatim>\<open>localStorage\<close> do: \<open>None\<close> is a call that goes through,
  \<open>Some m\<close> one that throws an error whose message is \<open>m\<close> (there is
  no \<^verbatim>\<open>localStorage\<close> outside a browser, a browser may refuse the
  access, and \<^verbatim>\<open>setItem\<close> fails when the quota is used up).
\<close>

record world =
  urls :: url_map
  logs :: "LogEntry list"
  random :: "nat \<Rightarrow> random_number"
  clock :: "nat \<Rightarrow> time"
  window_defined :: bool
  storage :: store
  storage_fault :: "nat \<Rightarrow> string option"

definition Math_random :: "world \<Rightarrow> random_number \<times> world" where
  "Math_random w = (random w 0, w\<lparr>random := \<lambda>n. random w (Suc n)\<rparr>)"

definition new_Date :: "world \<Rightarrow> time \<times> world" where
  "new_Date w = (clock w 0, w\<lparr>clock := \<lambda>n. clock w (Suc n)\<rparr>)"

text \<open>
  One access to \<^verbatim>\<open>localStorage\<close> that changes the store by \<open>f\<close>:
  the result is the message of the error thrown, or \<open>None\<close> with the store
  changed.
\<close>

definition storage_access :: "(store \<Rightarrow> store) \<Rightarrow> world \<Rightarrow> string option \<times> world" where
  "storage_access f w =
     (case storage_fault w 0 of
        Some m \<Rightarrow> (Some m, w\<lparr>storage_fault := \<lambda>n. storage_fault w (Suc n)\<rparr>)
      | None \<Rightarrow> (None, w\<lparr>storage := f (storage w),
                           storage_fault := \<lambda>n. storage_fault w (Suc n)\<rparr>))"

text \<open>\<^verbatim>\<open>if (x)\<close> and \<^verbatim>\<open>!!x\<close> on an optional string:
  \<^verbatim>\<open>undefined\<close> and the empty string are false.\<close>

definition truthy :: "string option \<Rightarrow> bool" where
  "truthy s = (case s of None \<Rightarrow> False | Some t \<Rightarrow> t \<noteq> [])"

section \<open>The logger\<close>

definition maxLogs :: nat where
  "maxLogs = 1000"

definition generateId :: "world \<Rightarrow> string \<times> world" where
  "generateId w = (case Math_random w of (r, w') \<Rightarrow> (base36 r, w'))"

definition getCurrentUserId :: string where
  "getCurrentUserId = ''anonymous-user''"

definition createLogEntry ::
  "level \<Rightarrow> string \<Rightarrow> fields option \<Rightarrow> string option \<Rightarrow> world \<Rightarrow> LogEntry \<times> world" where
  "createLogEntry lv msg ctx act w =
     (case generateId w of (i, w1) \<Rightarrow>
      case new_Date w1 of (t, w2) \<Rightarrow>
        (\<lparr>id_log = i, timestamp = t, level = lv, message = msg, context_log = ctx,
          userId = Some getCurrentUserId, action = act\<rparr>, w2))"

text \<open>
  \<^verbatim>\<open>unshift\<close> puts the entry at the head; \<^verbatim>\<open>slice(0, maxLogs)\<close>
  keeps the first \<open>maxLogs\<close>. The write to the store is inside a
  \<^verbatim>\<open>try\<close> whose handler only prints.
\<close>

definition persistLog :: "LogEntry \<Rightarrow> world \<Rightarrow> world" where
  "persistLog entry w =
     (let w1 = w\<lparr>logs := entry # logs w\<rparr>;
          w2 = (if length (logs w1) > maxLogs
                then w1\<lparr>logs := take maxLogs (logs w1)\<rparr> else w1)
      in snd (storage_access (\<lambda>st. st\<lparr>app_logs := Some (map json_entry (logs w2))\<rparr>) w2))"

definition info :: "string \<Rightarrow> fields option \<Rightarrow> string option \<Rightarrow> world \<Rightarrow> world" where
  "info msg ctx act w = (case createLogEntry INFO msg ctx act w of (e, w') \<Rightarrow> persistLog e w')"

definition warn :: "string \<Rightarrow> fields option \<Rightarrow> string option \<Rightarrow> world \<Rightarrow> world" where
  "warn msg ctx act w = (case createLogEntry WARN msg ctx act w of (e, w') \<Rightarrow> persistLog e w')"

definition error :: "string \<Rightarrow> fields option \<Rightarrow> string option \<Rightarrow> world \<Rightarrow> world" where
  "error msg ctx act w = (case createLogEntry ERROR msg ctx act w of (e, w') \<Rightarrow> persistLog e w')"

definition debug :: "string \<Rightarrow> fields option \<Rightarrow> string option \<Rightarrow> world \<Rightarrow> world" where
  "debug msg ctx act w = (case createLogEntry DEBUG msg ctx act w of (e, w') \<Rightarrow> persistLog e w')"

definition getLogs :: "world \<Rightarrow> LogEntry list" where
  "getLogs w = logs w"

text \<open>
  \<^verbatim>\<open>clearLogs\<close> empties the buffer, then calls
  \<^verbatim>\<open>localStorage.removeItem\<close> outside any \<^verbatim>\<open>try\<close>, then
  logs. When the access throws, the error leaves the method with the buffer already
  empty and nothing logged: the result is the error's message with the world at that
  point.
\<close>

definition clearLogs :: "world \<Rightarrow> string option \<times> world" where
  "clearLogs w =
     (let w1 = w\<lparr>logs := []\<rparr> in
      case storage_access (\<lambda>st. st\<lparr>app_logs := None\<rparr>) w1 of
        (Some m, w2) \<Rightarrow> (Some m, w2)
      | (None, w2) \<Rightarrow> (None, info ''Logs cleared by user'' (Some []) (Some ''CLEAR_LOGS'') w2))"

text \<open>
  \<^verbatim>\<open>loadLogs\<close> and \<^verbatim>\<open>init\<close> (the start of the page)
  and the constructor of the URL service read the store back; they are not part of the
  model, whose theorems hold from every state, loaded or not.
\<close>

section \<open>The URL shortener\<close>

definition chars :: string where
  "chars = ''abcdefghijklmnopqrstuvwxyzABCDEFGHIJKLMNOPQRSTUVWXYZ0123456789''"

text \<open>\<^verbatim>\<open>s.charAt(i)\<close> is the empty string when \<open>i\<close> is out of range.\<close>

definition charAt :: "string \<Rightarrow> nat \<Rightarrow> string" where
  "charAt s i = (if i < length s then [s ! i] else [])"

text \<open>
  \<^verbatim>\<open>saveToStorage\<close>: nothing outside a browser; in one, the mapping is
  written and the write logged, or the error thrown by the write is logged.
\<close>

definition saveToStorage :: "world \<Rightarrow> world" where
  "saveToStorage w =
     (if window_defined w then
        (case storage_access (\<lambda>st. st\<lparr>shortened_urls := Some (fromEntries (urls w))\<rparr>) w of
           (None, w1) \<Rightarrow>
             debug ''URLs saved to storage'' (Some [(''count'', JNumber (length (urls w1)))])
               (Some ''SAVE_STORAGE'') w1
         | (Some m, w1) \<Rightarrow>
             error ''Failed to save URLs to storage'' (Some [(''error'', JString m)])
               (Some ''SAVE_STORAGE_ERROR'') w1)
      else w)"

text \<open>The loop \<^verbatim>\<open>for (let i = 0; i < 6; i++) result += chars.charAt(...)\<close>.\<close>

function generateShortCode_loop :: "nat \<Rightarrow> string \<Rightarrow> world \<Rightarrow> string \<times> world" where
  "generateShortCode_loop i result w =
     (if i < 6
      then (case Math_random w of (r, w') \<Rightarrow>
              generateShortCode_loop (i + 1) (result @ charAt chars (floor62 r)) w')
      else (result, w))"
  by pat_completeness auto
termination
  by (relation "measure (\<lambda>(i, result, w). 6 - i)") auto

definition generateShortCode :: "world \<Rightarrow> string \<times> world" where
  "generateShortCode w = generateShortCode_loop 0 [] w"

text \<open>
  \<^verbatim>\<open>new URL(url)\<close> is the platform's parser; whether it accepts a string
  is the parameter \<open>parses\<close>.
\<close>

definition isValidUrl :: "(string \<Rightarrow> bool) \<Rightarrow> string \<Rightarrow> bool" where
  "isValidUrl parses url = parses url"

definition alphanumeric :: "char \<Rightarrow> bool" where
  "alphanumeric c =
     (let n = (of_char c :: nat)
      in (97 \<le> n \<and> n \<le> 122) \<or> (65 \<le> n \<and> n \<le> 90) \<or> (48 \<le> n \<and> n \<le> 57))"

text \<open>The test of \<^verbatim>\<open>/^[a-zA-Z0-9]{3,20}$/\<close>: the whole string, 3 to 20
  characters, each a letter or a digit.\<close>

definition isValidShortCode :: "string \<Rightarrow> bool" where
  "isValidShortCode code =
     (3 \<le> length code \<and> length code \<le> 20 \<and> list_all alphanumeric code)"

definition has :: "url_map \<Rightarrow> string \<Rightarrow> bool" where
  "has m k = (map_of m k \<noteq> None)"

text \<open>
  The result object \<^verbatim>\<open>{ success, data?, error? }\<close>: \<open>Inr\<close> is a
  success with its record, \<open>Inl\<close> a failure, whose \<^verbatim>\<open>error\<close>
  text is \<open>error_text\<close>.
\<close>

datatype shorten_error = InvalidUrl | InvalidShortCode | ShortCodeTaken

fun error_text :: "shorten_error \<Rightarrow> string" where
  "error_text InvalidUrl = ''Invalid URL format''"
| "error_text InvalidShortCode = ''Custom shortcode must be 3-20 alphanumeric characters''"
| "error_text ShortCodeTaken = ''Custom shortcode already exists''"

text \<open>
  \<^verbatim>\<open>do { shortCode = this.generateShortCode() } while (this.urls.has(shortCode))\<close>
  has no bound: a run that never leaves the loop is the value \<open>None\<close>.
\<close>

partial_function (option) generateUnique :: "world \<Rightarrow> (string \<times> world) option" where
  "generateUnique w =
     (case generateShortCode w of (code, w') \<Rightarrow>
        if has (urls w') code then generateUnique w' else Some (code, w'))"

declare generateUnique.simps [code]

text \<open>The end of \<^verbatim>\<open>shortenUrl\<close>, from the record's construction on.\<close>

definition storeUrl ::
  "string \<Rightarrow> string option \<Rightarrow> string \<Rightarrow> world \<Rightarrow> (shorten_error + ShortenedUrl) \<times> world" where
  "storeUrl url custom code w =
     (case Math_random w of (r, w1) \<Rightarrow>
      case new_Date w1 of (t, w2) \<Rightarrow>
        let shortenedUrl =
              \<lparr>id_url = base36 r, originalUrl = url, shortCode = code,
               customCode = Some (truthy custom), createdAt = t, clicks = 0,
               lastAccessed = None, clickHistory = []\<rparr>;
            w3 = w2\<lparr>urls := AList.update code shortenedUrl (urls w2)\<rparr>;
            w4 = saveToStorage w3;
            w5 = info ''URL shortened successfully''
                   (Some [(''shortCode'', JString code), (''originalUrl'', JString url),
                          (''isCustom'', JBoolean (truthy custom))])
                   (Some ''SHORTEN_SUCCESS'') w4
        in (Inr shortenedUrl, w5))"

text \<open>The \<^verbatim>\<open>else\<close> branch: a generated code, and its log entry.\<close>

definition generatedCode :: "world \<Rightarrow> (string \<times> world) option" where
  "generatedCode w =
     (case generateUnique w of
        None \<Rightarrow> None
      | Some (code, w') \<Rightarrow>
          Some (code, debug ''Generated shortcode'' (Some [(''shortCode'', JString code)])
                        (Some ''SHORTCODE_GENERATED'') w'))"

definition shortenUrl ::
  "(string \<Rightarrow> bool) \<Rightarrow> string \<Rightarrow> string option \<Rightarrow> world
     \<Rightarrow> ((shorten_error + ShortenedUrl) \<times> world) option" where
  "shortenUrl parses url custom w =
     (let w1 = info ''URL shortening requested''
                 (Some [(''originalUrl'', JString url),
                        (''customCode'', JBoolean (truthy custom)),
                        (''customCodeValue'',
                           case custom of None \<Rightarrow> JUndefined | Some c \<Rightarrow> JString c)])
                 (Some ''SHORTEN_REQUEST'') w
      in if \<not> isValidUrl parses url then
           Some (Inl InvalidUrl,
                 warn ''Invalid URL provided'' (Some [(''originalUrl'', JString url)])
                   (Some ''INVALID_URL'') w1)
         else
           (case custom of
              Some c \<Rightarrow>
                if c \<noteq> [] then
                  (if \<not> isValidShortCode c then
                     Some (Inl InvalidShortCode,
                           warn ''Invalid custom shortcode format''
                             (Some [(''customCode'', JString c)]) (Some ''INVALID_SHORTCODE'') w1)
                   else if has (urls w1) c then
                     Some (Inl ShortCodeTaken,
                           warn ''Custom shortcode already exists''
                             (Some [(''customCode'', JString c)]) (Some ''SHORTCODE_EXISTS'') w1)
                   else Some (storeUrl url custom c w1))
                else map_option (\<lambda>(code, w2). storeUrl url custom code w2) (generatedCode w1)
            | None \<Rightarrow> map_option (\<lambda>(code, w2). storeUrl url custom code w2) (generatedCode w1)))"

definition getUrl :: "string \<Rightarrow> world \<Rightarrow> ShortenedUrl option \<times> world" where
  "getUrl code w =
     (let w1 = debug ''URL lookup requested'' (Some [(''shortCode'', JString code)])
                 (Some ''URL_LOOKUP'') w
      in case map_of (urls w1) code of
           None \<Rightarrow> (None, warn ''URL not found'' (Some [(''shortCode'', JString code)])
                             (Some ''URL_NOT_FOUND'') w1)
         | Some u \<Rightarrow> (Some u, w1))"

text \<open>\<^verbatim>\<open>xs.slice(-n)\<close>: the last \<open>n\<close> elements, all of them when
  there are fewer.\<close>

definition slice_last :: "nat \<Rightarrow> 'a list \<Rightarrow> 'a list" where
  "slice_last n xs = drop (length xs - n) xs"

text \<open>
  \<^verbatim>\<open>recordClick\<close> changes the record object that the mapping holds: the
  entry under the key is replaced where it stands.
\<close>

definition recordClick ::
  "string \<Rightarrow> string option \<Rightarrow> string option \<Rightarrow> world \<Rightarrow> bool \<times> world" where
  "recordClick code ua rf w =
     (let w1 = info ''Click recording requested''
                 (Some [(''shortCode'', JString code), (''hasUserAgent'', JBoolean (truthy ua)),
                        (''hasReferrer'', JBoolean (truthy rf))])
                 (Some ''RECORD_CLICK'') w
      in case map_of (urls w1) code of
           None \<Rightarrow>
             (False, warn ''Cannot record click - URL not found''
                       (Some [(''shortCode'', JString code)]) (Some ''CLICK_RECORD_FAILED'') w1)
         | Some u \<Rightarrow>
             (case new_Date w1 of (t1, w2) \<Rightarrow>
              case new_Date w2 of (t2, w3) \<Rightarrow>
                let u1 = u\<lparr>clicks := clicks u + 1, lastAccessed := Some t1,
                           clickHistory := clickHistory u @
                             [\<lparr>timestamp_click = t2, userAgent = ua, referrer = rf\<rparr>]\<rparr>;
                    u2 = (if length (clickHistory u1) > 100
                          then u1\<lparr>clickHistory := slice_last 100 (clickHistory u1)\<rparr> else u1);
                    w4 = saveToStorage (w3\<lparr>urls := AList.update code u2 (urls w3)\<rparr>)
                in (True, info ''Click recorded successfully''
                            (Some [(''shortCode'', JString code),
                                   (''totalClicks'', JNumber (clicks u2))])
                            (Some ''CLICK_RECORDED'') w4)))"

text \<open>
  \<^verbatim>\<open>Array.prototype.sort\<close> with a comparison function: an element stays
  before the ones it does not compare greater than. For a comparison that orders the
  elements consistently the result does not depend on the engine's algorithm; the model
  computes it by insertion.
\<close>

fun insert_by :: "('a \<Rightarrow> 'a \<Rightarrow> int) \<Rightarrow> 'a \<Rightarrow> 'a list \<Rightarrow> 'a list" where
  "insert_by cmp x [] = [x]"
| "insert_by cmp x (y # ys) = (if cmp x y \<le> 0 then x # y # ys else y # insert_by cmp x ys)"

definition sort_by :: "('a \<Rightarrow> 'a \<Rightarrow> int) \<Rightarrow> 'a list \<Rightarrow> 'a list" where
  "sort_by cmp xs = foldr (insert_by cmp) xs []"

definition getAllUrls :: "world \<Rightarrow> ShortenedUrl list \<times> world" where
  "getAllUrls w =
     (sort_by (\<lambda>a b. createdAt b - createdAt a) (map snd (urls w)),
      debug ''All URLs requested'' (Some [(''count'', JNumber (length (urls w)))])
        (Some ''GET_ALL_URLS'') w)"

record UrlStats =
  totalUrls :: nat
  totalClicks :: nat
  topUrls :: "ShortenedUrl list"
  recentActivity :: "ShortenedUrl list"

definition getStats :: "world \<Rightarrow> UrlStats \<times> world" where
  "getStats w =
     (let w1 = debug ''Statistics requested'' (Some []) (Some ''GET_STATS'') w
      in case getAllUrls w1 of (allUrls, w2) \<Rightarrow>
        let total = foldl (\<lambda>sum u. sum + clicks u) 0 allUrls;
            stats =
              \<lparr>totalUrls = length allUrls,
               totalClicks = total,
               topUrls = take 10 (sort_by (\<lambda>a b. int (clicks b) - int (clicks a))
                                    (filter (\<lambda>u. clicks u > 0) allUrls)),
               recentActivity =
                 take 10 (sort_by (\<lambda>a b. the (lastAccessed b) - the (lastAccessed a))
                            (filter (\<lambda>u. lastAccessed u \<noteq> None) allUrls))\<rparr>
        in (stats,
            info ''Statistics generated''
              (Some [(''totalUrls'', JNumber (totalUrls stats)),
                     (''totalClicks'', JNumber (totalClicks stats)),
                     (''topUrlsCount'', JNumber (length (topUrls stats)))])
              (Some ''STATS_GENERATED'') w2))"

definition deleteUrl :: "string \<Rightarrow> world \<Rightarrow> bool \<times> world" where
  "deleteUrl code w =
     (let w1 = info ''URL deletion requested'' (Some [(''shortCode'', JString code)])
                 (Some ''DELETE_REQUEST'') w;
          existed = has (urls w1) code
      in if existed then
           (existed,
            info ''URL deleted successfully'' (Some [(''shortCode'', JString code)])
              (Some ''DELETE_SUCCESS'')
              (saveToStorage (w1\<lparr>urls := AList.delete code (urls w1)\<rparr>)))
         else
           (existed,
            warn ''Cannot delete - URL not found'' (Some [(''shortCode'', JString code)])
              (Some ''DELETE_FAILED'') w1))"

section \<open>Sequences of calls\<close>

text \<open>A call of one of the logger's four methods, and a sequence of them.\<close>

type_synonym log_call = "level \<times> string \<times> fields option \<times> string option"

fun log_at :: "log_call \<Rightarrow> world \<Rightarrow> world" where
  "log_at (INFO, msg, ctx, act) w = info msg ctx act w"
| "log_at (WARN, msg, ctx, act) w = warn msg ctx act w"
| "log_at (ERROR, msg, ctx, act) w = error msg ctx act w"
| "log_at (DEBUG, msg, ctx, act) w = debug msg ctx act w"

fun log_all :: "log_call list \<Rightarrow> world \<Rightarrow> world" where
  "log_all [] w = w"
| "log_all (c # cs) w = log_all cs (log_at c w)"

text \<open>What a log entry was called with.\<close>

definition call_of :: "LogEntry \<Rightarrow> log_call" where
  "call_of e = (level e, message e, context_log e, action e)"

text \<open>Clicks on one code, one after the other, each with its user agent and referrer.\<close>

fun recordClicks :: "string \<Rightarrow> (string option \<times> string option) list \<Rightarrow> world \<Rightarrow> world" where
  "recordClicks code [] w = w"
| "recordClicks code ((ua, rf) # cs) w = recordClicks code cs (snd (recordClick code ua rf w))"

text \<open>
  The click event that \<^verbatim>\<open>recordClick\<close> pushes in world \<open>w\<close>: its
  time is the third reading of the clock in the call (the request's log entry and
  \<^verbatim>\<open>lastAccessed\<close> take the first two). \<open>clickEvents\<close> lists the
  events of a sequence of clicks, first click first.
\<close>

definition pushed :: "string option \<Rightarrow> string option \<Rightarrow> world \<Rightarrow> click" where
  "pushed ua rf w = \<lparr>timestamp_click = clock w 2, userAgent = ua, referrer = rf\<rparr>"

fun clickEvents :: "string \<Rightarrow> (string option \<times> string option) list \<Rightarrow> world \<Rightarrow> click list" where
  "clickEvents code [] w = []"
| "clickEvents code ((ua, rf) # cs) w =
     pushed ua rf w # clickEvents code cs (snd (recordClick code ua rf w))"

text \<open>The three operations that change the mapping, and a sequence of them; a
  sequence returns when each of its calls does.\<close>

datatype operation =
    Shorten string "string option"
  | RecordClick string "string option" "string option"
  | Delete string

fun perform :: "(string \<Rightarrow> bool) \<Rightarrow> operation \<Rightarrow> world \<Rightarrow> world option" where
  "perform parses (Shorten url custom) w = map_option snd (shortenUrl parses url custom w)"
| "perform parses (RecordClick code ua rf) w = Some (snd (recordClick code ua rf w))"
| "perform parses (Delete code) w = Some (snd (deleteUrl code w))"

fun perform_all :: "(string \<Rightarrow> bool) \<Rightarrow> operation list \<Rightarrow> world \<Rightarrow> world option" where
  "perform_all parses [] w = Some w"
| "perform_all parses (x # xs) w =
     (case perform parses x w of None \<Rightarrow> None | Some w' \<Rightarrow> perform_all parses xs w')"

section \<open>What the statements speak of\<close>

text \<open>
  The entry that a call of the logger makes in world \<open>w\<close> (its id is the next
  random number, its time the next reading of the clock), and the entries of a sequence
  of calls, first call first.
\<close>

definition logged :: "log_call \<Rightarrow> world \<Rightarrow> LogEntry" where
  "logged c w = (case c of (lv, msg, ctx, act) \<Rightarrow> fst (createLogEntry lv msg ctx act w))"

fun logged_all :: "log_call list \<Rightarrow> world \<Rightarrow> LogEntry list" where
  "logged_all [] w = []"
| "logged_all (c # cs) w = logged c w # logged_all cs (log_at c w)"

text \<open>
  The code that call number \<open>n\<close> of \<^verbatim>\<open>generateShortCode\<close> (from 0)
  returns when the random numbers to come are \<open>rnd\<close>: each call takes six of them.
\<close>

definition candidate :: "(nat \<Rightarrow> random_number) \<Rightarrow> nat \<Rightarrow> string" where
  "candidate rnd n = concat (map (\<lambda>i. charAt chars (floor62 (rnd (6 * n + i)))) [0, 1, 2, 3, 4, 5])"

text \<open>
  A browser at its start, for the examples: nothing stored, nothing logged, every access
  to the store going through, the clock counting up, and random numbers that run
  through the alphabet.
\<close>

definition world0 :: world where
  "world0 =
     \<lparr>urls = [], logs = [],
      random = (\<lambda>n. \<lparr>floor62 = n mod 62, base36 = ''r''\<rparr>),
      clock = (\<lambda>n. int n),
      window_defined = True,
      storage = \<lparr>app_logs = None, shortened_urls = None\<rparr>,
      storage_fault = (\<lambda>n. None)\<rparr>"

text \<open>
  The record that \<^verbatim>\<open>shortenUrl\<close> makes for a generated code in world
  \<open>w\<close> when attempt \<open>m\<close> is the first whose code is free. The request's
  log entry takes the first random number, the attempts six each, the log entry of the
  generated code one, and the record's id the next; its time is the third reading of the
  clock.
\<close>

definition generated_record :: "string \<Rightarrow> nat \<Rightarrow> world \<Rightarrow> ShortenedUrl" where
  "generated_record url m w =
     \<lparr>id_url = base36 (random w (6 * m + 8)), originalUrl = url,
      shortCode = candidate (\<lambda>k. random w (Suc k)) m,
      customCode = Some False, createdAt = clock w 2, clicks = 0,
      lastAccessed = None, clickHistory = []\<rparr>"

text \<open>
  For the examples: a parser that accepts \<^verbatim>\<open>https://example.com\<close>, as
  \<^verbatim>\<open>new URL\<close> does, and nothing else (the examples give it one other
  string, \<^verbatim>\<open>not a url\<close>, which \<^verbatim>\<open>new URL\<close> rejects too);
  a record under the custom code \<^verbatim>\<open>docs\<close> that has not been clicked; and
  the browser with this record in the mapping.
\<close>

definition example_parser :: "string \<Rightarrow> bool" where
  "example_parser url = (url = ''https://example.com'')"

definition docs_record :: ShortenedUrl where
  "docs_record =
     \<lparr>id_url = ''r'', originalUrl = ''https://example.com'', shortCode = ''docs'',
      customCode = Some True, createdAt = 0, clicks = 0, lastAccessed = None,
      clickHistory = []\<rparr>"

definition world1 :: world where
  "world1 = world0\<lparr>urls := [(''docs'', docs_record)]\<rparr>"

text \<open>
  A browser that refuses the page its storage: every access to
  \<^verbatim>\<open>localStorage\<close> throws. The logger and the mapping work in it, since
  every other access stands inside a \<^verbatim>\<open>try\<close>.
\<close>

definition world3 :: world where
  "world3 = world1\<lparr>storage_fault := (\<lambda>n. Some ''The operation is insecure.'')\<rparr>"

text \<open>
  The browser with a record under \<^verbatim>\<open>bcdefg\<close>, the code that the first
  attempt of a shortening generates from the random numbers of \<open>world0\<close>.
\<close>

definition world2 :: world where
  "world2 =
     world0\<lparr>urls := [(''bcdefg'', docs_record\<lparr>shortCode := ''bcdefg'', customCode := Some False\<rparr>)]\<rparr>"

section \<open>The event log\<close>

lemma persistLog_logs: "logs (persistLog e w) = take maxLogs (e # logs w)"
  by (simp add: persistLog_def storage_access_def Let_def split: option.splits)

lemma persistLog_frame:
  "urls (persistLog e w) = urls w" "random (persistLog e w) = random w"
  "clock (persistLog e w) = clock w" "window_defined (persistLog e w) = window_defined w"
  "storage_fault (persistLog e w) = (\<lambda>n. storage_fault w (Suc n))"
  by (simp_all add: persistLog_def storage_access_def Let_def split: option.splits)

lemma createLogEntry_eq:
  "createLogEntry lv msg ctx act w =
     (\<lparr>id_log = base36 (random w 0), timestamp = clock w 0, level = lv, message = msg,
       context_log = ctx, userId = Some getCurrentUserId, action = act\<rparr>,
      w\<lparr>random := \<lambda>n. random w (Suc n), clock := \<lambda>n. clock w (Suc n)\<rparr>)"
  by (simp add: createLogEntry_def generateId_def Math_random_def new_Date_def)

lemma log_at_logs: "logs (log_at c w) = take maxLogs (logged c w # logs w)"
  by (cases "(c, w)" rule: log_at.cases)
     (simp_all add: logged_def info_def warn_def error_def debug_def createLogEntry_eq persistLog_logs)

lemma log_at_frame:
  "urls (log_at c w) = urls w"
  "random (log_at c w) = (\<lambda>n. random w (Suc n))"
  "clock (log_at c w) = (\<lambda>n. clock w (Suc n))"
  "window_defined (log_at c w) = window_defined w"
  "storage_fault (log_at c w) = (\<lambda>n. storage_fault w (Suc n))"
  by (cases "(c, w)" rule: log_at.cases;
      simp add: info_def warn_def error_def debug_def createLogEntry_eq persistLog_frame)+

lemmas log_simps = log_at.simps [symmetric]

lemma logger_urls [simp]:
  "urls (info m c a w) = urls w" "urls (warn m c a w) = urls w"
  "urls (error m c a w) = urls w" "urls (debug m c a w) = urls w"
  by (simp_all add: log_simps log_at_frame del: log_at.simps)

lemma logger_random [simp]:
  "random (info m c a w) = (\<lambda>n. random w (Suc n))"
  "random (warn m c a w) = (\<lambda>n. random w (Suc n))"
  "random (error m c a w) = (\<lambda>n. random w (Suc n))"
  "random (debug m c a w) = (\<lambda>n. random w (Suc n))"
  by (simp_all add: log_simps log_at_frame del: log_at.simps)

lemma logger_clock [simp]:
  "clock (info m c a w) = (\<lambda>n. clock w (Suc n))"
  "clock (warn m c a w) = (\<lambda>n. clock w (Suc n))"
  "clock (error m c a w) = (\<lambda>n. clock w (Suc n))"
  "clock (debug m c a w) = (\<lambda>n. clock w (Suc n))"
  by (simp_all add: log_simps log_at_frame del: log_at.simps)

lemma logger_window [simp]:
  "window_defined (info m c a w) = window_defined w"
  "window_defined (warn m c a w) = window_defined w"
  "window_defined (error m c a w) = window_defined w"
  "window_defined (debug m c a w) = window_defined w"
  by (simp_all add: log_simps log_at_frame del: log_at.simps)

lemma call_of_logged: "call_of (logged c w) = c"
  by (cases c) (simp add: call_of_def logged_def createLogEntry_eq)

lemma map_call_of_logged_all: "map call_of (logged_all cs w) = cs"
  by (induction cs arbitrary: w) (simp_all add: call_of_logged)

lemma length_logged_all: "length (logged_all cs w) = length cs"
  by (induction cs arbitrary: w) simp_all

lemma log_all_logs:
  "logs (log_all cs w) =
     (if cs = [] then logs w else take maxLogs (rev (logged_all cs w) @ logs w))"
proof (induction cs arbitrary: w)
  case Nil
  show ?case by simp
next
  case (Cons c cs)
  show ?case
  proof (cases "cs = []")
    case True
    then show ?thesis by (simp add: log_at_logs)
  next
    case False
    have "take maxLogs (rev (logged_all cs (log_at c w)) @ take maxLogs (logged c w # logs w)) =
          take maxLogs (rev (logged_all cs (log_at c w)) @ logged c w # logs w)"
      by (simp add: min_def)
    with False show ?thesis by (simp add: Cons.IH log_at_logs)
  qed
qed

text \<open>
  Claim C4. The buffer never holds more than 1000 entries, however many calls of the
  logger are made: a buffer within the bound stays within it, and one call brings any
  buffer within it. From an empty buffer it holds the entries of the last 1000 calls,
  newest first, so after \<open>N \<le> 1000\<close> calls \<^verbatim>\<open>getLogs\<close> returns
  exactly \<open>N\<close> entries, the newest first.
\<close>

theorem event_log_bounded:
  "(length (logs w) \<le> 1000 \<longrightarrow> length (getLogs (log_all calls w)) \<le> 1000) \<and>
   (calls \<noteq> [] \<longrightarrow> length (getLogs (log_all calls w)) \<le> 1000) \<and>
   (logs w = [] \<longrightarrow>
      getLogs (log_all calls w) = take 1000 (rev (logged_all calls w)) \<and>
      map call_of (getLogs (log_all calls w)) = take 1000 (rev calls)) \<and>
   (logs w = [] \<and> length calls \<le> 1000 \<longrightarrow>
      length (getLogs (log_all calls w)) = length calls \<and>
      map call_of (getLogs (log_all calls w)) = rev calls)"
proof -
  have a: "length (logs w) \<le> 1000 \<Longrightarrow> length (getLogs (log_all calls w)) \<le> 1000"
    by (simp add: getLogs_def log_all_logs maxLogs_def del: take_append)
  have a': "calls \<noteq> [] \<Longrightarrow> length (getLogs (log_all calls w)) \<le> 1000"
    by (simp add: getLogs_def log_all_logs maxLogs_def del: take_append)
  have b: "getLogs (log_all calls w) = take 1000 (rev (logged_all calls w))" if "logs w = []"
    using that by (simp add: getLogs_def log_all_logs maxLogs_def)
  have c: "map call_of (getLogs (log_all calls w)) = take 1000 (rev calls)" if "logs w = []"
  proof -
    have "map call_of (take 1000 (rev (logged_all calls w))) =
          take 1000 (rev (map call_of (logged_all calls w)))"
      unfolding rev_map take_map ..
    then show ?thesis by (simp only: b [OF that] map_call_of_logged_all)
  qed
  show ?thesis
    using a a' b c by (simp add: length_logged_all rev_map [symmetric] map_call_of_logged_all)
qed

theorem event_log_bounded_witness:
  "length (logs world0) \<le> 1000 \<and> logs world0 = [] \<and>
   [(INFO, ''first'', None, None), (WARN, ''second'', Some [], Some ''TAG'')] \<noteq> [] \<and>
   length [(INFO, ''first'', None, None), (WARN, ''second'', Some [], Some ''TAG'')] \<le> (1000 :: nat) \<and>
   length (getLogs (log_all [(INFO, ''first'', None, None),
                             (WARN, ''second'', Some [], Some ''TAG'')] world0)) = 2 \<and>
   map call_of (getLogs (log_all [(INFO, ''first'', None, None),
                                  (WARN, ''second'', Some [], Some ''TAG'')] world0)) =
     [(WARN, ''second'', Some [], Some ''TAG''), (INFO, ''first'', None, None)]"
  using event_log_bounded [of world0 "[(INFO, ''first'', None, None),
                                       (WARN, ''second'', Some [], Some ''TAG'')]"]
  by (simp add: world0_def call_of_logged getLogs_def log_at_logs maxLogs_def del: log_at.simps)

text \<open>
  Where the access to the store goes through, \<^verbatim>\<open>clearLogs\<close> returns and
  leaves exactly one entry in the buffer, the entry that records the clearing.
\<close>

lemma clear_leaves_one_entry:
  assumes "storage_fault w 0 = None"
  shows "fst (clearLogs w) = None \<and>
         getLogs (snd (clearLogs w)) =
           [\<lparr>id_log = base36 (random w 0), timestamp = clock w 0, level = INFO,
             message = ''Logs cleared by user'', context_log = Some [],
             userId = Some ''anonymous-user'', action = Some ''CLEAR_LOGS''\<rparr>] \<and>
         length (getLogs (snd (clearLogs w))) = 1"
  using assms
  by (simp add: clearLogs_def storage_access_def Let_def getLogs_def info_def
      createLogEntry_eq persistLog_logs maxLogs_def getCurrentUserId_def)

lemma clear_leaves_one_entry_example:
  "storage_fault (log_all [(INFO, ''first'', None, None), (WARN, ''second'', None, None)] world1) 0 =
     None \<and>
   length (getLogs (log_all [(INFO, ''first'', None, None), (WARN, ''second'', None, None)] world1)) =
     2 \<and>
   getLogs (snd (clearLogs
     (log_all [(INFO, ''first'', None, None), (WARN, ''second'', None, None)] world1))) =
     [\<lparr>id_log = ''r'', timestamp = 2, level = INFO,
       message = ''Logs cleared by user'', context_log = Some [],
       userId = Some ''anonymous-user'', action = Some ''CLEAR_LOGS''\<rparr>]"
proof -
  let ?w = "log_all [(INFO, ''first'', None, None), (WARN, ''second'', None, None)] world1"
  have 1: "storage_fault ?w 0 = None"
    by (simp add: world1_def world0_def log_at_frame del: log_at.simps)
  have 2: "length (getLogs ?w) = 2"
    by (simp add: getLogs_def world1_def world0_def log_at_logs maxLogs_def del: log_at.simps)
  show ?thesis
    using 1 2 clear_leaves_one_entry [OF 1]
    by (simp add: world1_def world0_def log_at_frame del: log_at.simps)
qed

text \<open>
  Where the access throws, the error leaves \<^verbatim>\<open>clearLogs\<close> after the
  buffer was emptied and before anything is logged.
\<close>

lemma clear_throws:
  assumes "storage_fault w 0 = Some m"
  shows "fst (clearLogs w) = Some m \<and> getLogs (snd (clearLogs w)) = []"
  using assms by (simp add: clearLogs_def storage_access_def Let_def getLogs_def)

text \<open>
  Claim C9. After \<^verbatim>\<open>clearLogs\<close> the buffer should hold exactly one
  entry, the one that records the clearing. The code does not do this in a browser that
  refuses storage: there the logger works (two calls leave two entries, the failed writes
  being caught in \<^verbatim>\<open>persistLog\<close>), but \<^verbatim>\<open>clearLogs\<close> calls
  \<^verbatim>\<open>localStorage.removeItem\<close> outside any \<^verbatim>\<open>try\<close>, so the
  error leaves the method with the buffer empty and the clearing not logged.
\<close>

theorem clear_where_storage_is_refused:
  "length (getLogs (log_all [(INFO, ''first'', None, None), (WARN, ''second'', None, None)] world3)) =
     2 \<and>
   fst (clearLogs (log_all [(INFO, ''first'', None, None), (WARN, ''second'', None, None)] world3)) =
     Some ''The operation is insecure.'' \<and>
   getLogs (snd (clearLogs
     (log_all [(INFO, ''first'', None, None), (WARN, ''second'', None, None)] world3))) = []"
proof -
  let ?w = "log_all [(INFO, ''first'', None, None), (WARN, ''second'', None, None)] world3"
  have 1: "storage_fault ?w 0 = Some ''The operation is insecure.''"
    by (simp add: world3_def world1_def world0_def log_at_frame del: log_at.simps)
  have 2: "length (getLogs ?w) = 2"
    by (simp add: getLogs_def world3_def world1_def world0_def log_at_logs maxLogs_def
        del: log_at.simps)
  have 3: "fst (clearLogs ?w) = Some ''The operation is insecure.'' \<and>
           getLogs (snd (clearLogs ?w)) = []"
    using 1 by (simp add: clearLogs_def storage_access_def Let_def getLogs_def)
  show ?thesis using 2 3 by blast
qed

section \<open>Shortening\<close>

lemma saveToStorage_urls: "urls (saveToStorage w) = urls w"
  by (simp add: saveToStorage_def storage_access_def log_simps log_at_frame del: log_at.simps
      split: option.splits)

lemma generateShortCode_eq:
  "generateShortCode w = (candidate (random w) 0, w\<lparr>random := \<lambda>k. random w (k + 6)\<rparr>)"
  by (simp add: generateShortCode_def candidate_def Math_random_def eval_nat_numeral)


lemma candidate_shift: "candidate (\<lambda>k. rnd (k + 6)) n = candidate rnd (Suc n)"
  by (simp add: candidate_def add.commute add.left_commute)

lemma generateUnique_first:
  assumes "\<not> has (urls w) (candidate (random w) m)"
    and "\<And>j. j < m \<Longrightarrow> has (urls w) (candidate (random w) j)"
  shows "generateUnique w =
           Some (candidate (random w) m, w\<lparr>random := \<lambda>k. random w (k + 6 * Suc m)\<rparr>)"
  using assms
proof (induction m arbitrary: w)
  case 0
  then show ?case by (subst generateUnique.simps) (simp add: generateShortCode_eq)
next
  case (Suc m)
  let ?w = "w\<lparr>random := \<lambda>k. random w (k + 6)\<rparr>"
  have "has (urls w) (candidate (random w) 0)" using Suc.prems(2) by simp
  then have step: "generateUnique w = generateUnique ?w"
    by (subst generateUnique.simps) (simp add: generateShortCode_eq)
  have "\<not> has (urls ?w) (candidate (random ?w) m)"
    using Suc.prems(1) by (simp add: candidate_shift)
  moreover have "has (urls ?w) (candidate (random ?w) j)" if "j < m" for j
    using Suc.prems(2) [of "Suc j"] that by (simp add: candidate_shift)
  ultimately have "generateUnique ?w =
      Some (candidate (random ?w) m, ?w\<lparr>random := \<lambda>k. random ?w (k + 6 * Suc m)\<rparr>)"
    by (rule Suc.IH)
  moreover have "(\<lambda>k. random w (k + 6 * Suc m + 6)) = (\<lambda>k. random w (k + 6 * Suc (Suc m)))"
    by (simp add: add.commute add.left_commute)
  ultimately show ?case using step by (simp add: candidate_shift)
qed

text \<open>
  The loop returns only when some attempt is free: where every attempt draws a code of
  the mapping, it never ends.
\<close>

lemma generateUnique_needs_free:
  assumes "generateUnique w = Some y"
  shows "\<exists>n. \<not> has (urls w) (candidate (random w) n)"
proof (rule generateUnique.raw_induct
    [where P = "\<lambda>w y. \<exists>n. \<not> has (urls w) (candidate (random w) n)", OF _ assms])
  fix gen :: "world \<Rightarrow> (string \<times> world) option" and v y
  assume ih: "\<And>x y. gen x = Some y \<Longrightarrow> \<exists>n. \<not> has (urls x) (candidate (random x) n)"
    and body: "(case generateShortCode v of
                  (code, w') \<Rightarrow> if has (urls w') code then gen w' else Some (code, w')) = Some y"
  show "\<exists>n. \<not> has (urls v) (candidate (random v) n)"
  proof (cases "has (urls v) (candidate (random v) 0)")
    case False
    then show ?thesis by blast
  next
    case True
    with body have "gen (v\<lparr>random := \<lambda>k. random v (k + 6)\<rparr>) = Some y"
      by (simp add: generateShortCode_eq)
    from ih [OF this] obtain n where "\<not> has (urls v) (candidate (random v) (Suc n))"
      by (auto simp: candidate_shift)
    then show ?thesis by blast
  qed
qed

lemma chars_alphanumeric: "list_all alphanumeric chars"
  by (simp add: chars_def alphanumeric_def)

lemma length_chars: "length chars = 62"
  by (simp add: chars_def)

lemma charAt_chars:
  "i < 62 \<Longrightarrow> length (charAt chars i) = 1 \<and> list_all alphanumeric (charAt chars i)"
  using chars_alphanumeric by (simp add: charAt_def length_chars list_all_length)

lemma candidate_code:
  assumes "\<And>k. floor62 (rnd k) < 62"
  shows "length (candidate rnd n) = 6 \<and> list_all alphanumeric (candidate rnd n)"
  using assms by (simp add: candidate_def charAt_chars)

lemma update_absent: "\<not> has m k \<Longrightarrow> AList.update k v m = m @ [(k, v)]"
  by (induction m) (auto simp: has_def)

text \<open>A custom code that passes the test and is free is stored under itself.\<close>

lemma shortenUrl_custom:
  assumes "parses url" and "isValidShortCode c" and "\<not> has (urls w) c"
  shows "\<exists>r w'. shortenUrl parses url (Some c) w = Some (Inr r, w') \<and>
           urls w' = urls w @ [(c, r)] \<and> shortCode r = c \<and> originalUrl r = url \<and>
           customCode r = Some True \<and> clicks r = 0 \<and> clickHistory r = []"
proof -
  have "c \<noteq> []" using assms(2) by (auto simp: isValidShortCode_def)
  then show ?thesis
    using assms
    by (simp add: shortenUrl_def isValidUrl_def Let_def storeUrl_def Math_random_def new_Date_def
        saveToStorage_urls update_absent truthy_def)
qed

lemma shortenUrl_generated_first:
  assumes "parses url" and "\<not> truthy custom"
    and "\<not> has (urls w) (candidate (\<lambda>k. random w (Suc k)) m)"
    and "\<And>j. j < m \<Longrightarrow> has (urls w) (candidate (\<lambda>k. random w (Suc k)) j)"
  shows "\<exists>w'. shortenUrl parses url custom w = Some (Inr (generated_record url m w), w') \<and>
           urls w' = urls w @ [(candidate (\<lambda>k. random w (Suc k)) m, generated_record url m w)]"
proof -
  let ?w1 = "info ''URL shortening requested''
                 (Some [(''originalUrl'', JString url),
                        (''customCode'', JBoolean (truthy custom)),
                        (''customCodeValue'',
                           case custom of None \<Rightarrow> JUndefined | Some c \<Rightarrow> JString c)])
                 (Some ''SHORTEN_REQUEST'') w"
  let ?code = "candidate (\<lambda>k. random w (Suc k)) m"
  let ?w2 = "?w1\<lparr>random := \<lambda>k. random ?w1 (k + 6 * Suc m)\<rparr>"
  let ?w3 = "debug ''Generated shortcode'' (Some [(''shortCode'', JString ?code)])
               (Some ''SHORTCODE_GENERATED'') ?w2"
  have "generateUnique ?w1 = Some (candidate (random ?w1) m, ?w2)"
    by (rule generateUnique_first) (simp_all add: assms(3,4))
  then have g: "generatedCode ?w1 = Some (?code, ?w3)"
    by (simp add: generatedCode_def)
  have r: "fst (storeUrl url custom ?code ?w3) = Inr (generated_record url m w)"
    using assms(2)
    by (simp add: storeUrl_def Math_random_def new_Date_def Let_def generated_record_def
        add.commute eval_nat_numeral)
  have u: "urls (snd (storeUrl url custom ?code ?w3)) =
             AList.update ?code (generated_record url m w) (urls w)"
    using assms(2)
    by (simp add: storeUrl_def Math_random_def new_Date_def Let_def generated_record_def
        saveToStorage_urls add.commute eval_nat_numeral)
  have "shortenUrl parses url custom w = Some (storeUrl url custom ?code ?w3)"
    using assms(1,2) g
    by (auto simp: shortenUrl_def isValidUrl_def Let_def truthy_def split: option.splits)
  then have "shortenUrl parses url custom w =
      Some (Inr (generated_record url m w), snd (storeUrl url custom ?code ?w3))"
    using r by (metis prod.collapse)
  with u assms(3) show ?thesis by (simp add: update_absent)
qed

lemma first_free:
  assumes "\<not> has m (candidate rnd n)"
  obtains k where "k \<le> n" "\<not> has m (candidate rnd k)" "\<And>j. j < k \<Longrightarrow> has m (candidate rnd j)"
proof -
  let ?k = "LEAST k. \<not> has m (candidate rnd k)"
  have "\<not> has m (candidate rnd ?k)" using assms by (rule LeastI)
  moreover have "?k \<le> n" using assms by (rule Least_le)
  moreover have "has m (candidate rnd j)" if "j < ?k" for j
    using not_less_Least [OF that] by simp
  ultimately show ?thesis using that by blast
qed

lemma generated_record_code:
  assumes "\<And>k. floor62 (random w k) < 62"
  shows "length (shortCode (generated_record url m w)) = 6 \<and>
         list_all alphanumeric (shortCode (generated_record url m w))"
  using candidate_code [of "\<lambda>k. random w (Suc k)" m] assms
  by (simp add: generated_record_def)

text \<open>
  Claim C2. For a URL that parses and no custom code, where the random numbers
  are in range and some attempt draws a code that is not in the mapping,
  \<^verbatim>\<open>shortenUrl\<close> returns a success whose record has a code of six
  letters and digits that was not in the mapping, no clicks and an empty history, and
  the mapping is the old one with this record added under its code.
\<close>

theorem shorten_generates_fresh_code:
  assumes "parses url"
    and "\<And>k. floor62 (random w k) < 62"
    and "\<not> has (urls w) (candidate (\<lambda>k. random w (Suc k)) n)"
  shows "\<exists>r w'. shortenUrl parses url None w = Some (Inr r, w') \<and>
           length (shortCode r) = 6 \<and> list_all alphanumeric (shortCode r) \<and>
           \<not> has (urls w) (shortCode r) \<and>
           originalUrl r = url \<and> clicks r = 0 \<and> clickHistory r = [] \<and>
           map_of (urls w') (shortCode r) = Some r \<and>
           urls w' = urls w @ [(shortCode r, r)]"
proof -
  from first_free [OF assms(3)] obtain m where m:
    "\<not> has (urls w) (candidate (\<lambda>k. random w (Suc k)) m)"
    "\<And>j. j < m \<Longrightarrow> has (urls w) (candidate (\<lambda>k. random w (Suc k)) j)"
    by blast
  let ?r = "generated_record url m w"
  have c: "shortCode ?r = candidate (\<lambda>k. random w (Suc k)) m"
    by (simp add: generated_record_def)
  have nt: "\<not> truthy None" by (simp add: truthy_def)
  from shortenUrl_generated_first [of parses url None w m, OF assms(1) nt m] obtain w' where w':
    "shortenUrl parses url None w = Some (Inr ?r, w')"
    "urls w' = urls w @ [(shortCode ?r, ?r)]"
    by (auto simp: c)
  have "map_of (urls w') (shortCode ?r) = Some ?r"
    using m(1) by (simp add: w'(2) c has_def map_add_Some_iff)
  moreover have "originalUrl ?r = url \<and> clicks ?r = 0 \<and> clickHistory ?r = []"
    by (simp add: generated_record_def)
  moreover have "\<not> has (urls w) (shortCode ?r)" using m(1) by (simp add: c)
  ultimately show ?thesis
    using w' generated_record_code [OF assms(2), of url m] by blast
qed

theorem shorten_generates_fresh_code_witness:
  "example_parser ''https://example.com'' \<and>
   floor62 (random world2 5) < 62 \<and>
   has (urls world2) (candidate (\<lambda>k. random world2 (Suc k)) 0) \<and>
   \<not> has (urls world2) (candidate (\<lambda>k. random world2 (Suc k)) 1) \<and>
   (\<exists>r w'. shortenUrl example_parser ''https://example.com'' None world2 = Some (Inr r, w') \<and>
      length (shortCode r) = 6 \<and> list_all alphanumeric (shortCode r) \<and>
      \<not> has (urls world2) (shortCode r) \<and>
      originalUrl r = ''https://example.com'' \<and> clicks r = 0 \<and> clickHistory r = [] \<and>
      map_of (urls w') (shortCode r) = Some r \<and>
      urls w' = urls world2 @ [(shortCode r, r)])"
proof -
  have 1: "example_parser ''https://example.com''" by (simp add: example_parser_def)
  have 2: "floor62 (random world2 k) < 62" for k by (simp add: world2_def world0_def)
  have 3: "\<not> has (urls world2) (candidate (\<lambda>k. random world2 (Suc k)) 1)"
    by (simp add: world2_def world0_def has_def candidate_def charAt_def chars_def)
  have 4: "has (urls world2) (candidate (\<lambda>k. random world2 (Suc k)) 0)"
    by (simp add: world2_def world0_def has_def candidate_def charAt_def chars_def)
  show ?thesis
    using 1 2 [of 5] 3 4 shorten_generates_fresh_code [of example_parser, OF 1 2 3] by blast
qed

text \<open>
  Claim C10. The empty string does not pass the test of custom codes, and
  yet \<^verbatim>\<open>shortenUrl\<close> with a URL that parses and the empty string as
  custom code does what it does with no custom code: it returns the same record, with a
  generated code of six characters and \<^verbatim>\<open>customCode\<close> false. With a
  URL that does not parse it fails with the error of the URL, whatever the custom code.
\<close>

theorem empty_custom_code_is_omitted:
  "\<not> isValidShortCode '''' \<and>
   (parses url \<and> (\<forall>k. floor62 (random w k) < 62) \<and>
    \<not> has (urls w) (candidate (\<lambda>k. random w (Suc k)) n) \<longrightarrow>
      (\<exists>r w' w''. shortenUrl parses url (Some '''') w = Some (Inr r, w') \<and>
         shortenUrl parses url None w = Some (Inr r, w'') \<and>
         customCode r = Some False \<and>
         length (shortCode r) = 6 \<and> list_all alphanumeric (shortCode r) \<and>
         \<not> has (urls w) (shortCode r) \<and> map_of (urls w') (shortCode r) = Some r)) \<and>
   (\<not> parses bad \<longrightarrow>
      (\<exists>w'. shortenUrl parses bad custom w = Some (Inl InvalidUrl, w') \<and> urls w' = urls w))"
proof (intro conjI impI)
  show "\<not> isValidShortCode ''''" by (simp add: isValidShortCode_def)
next
  assume a: "parses url \<and> (\<forall>k. floor62 (random w k) < 62) \<and>
    \<not> has (urls w) (candidate (\<lambda>k. random w (Suc k)) n)"
  then have free: "\<not> has (urls w) (candidate (\<lambda>k. random w (Suc k)) n)" by simp
  from first_free [OF free] obtain m where m:
    "\<not> has (urls w) (candidate (\<lambda>k. random w (Suc k)) m)"
    "\<And>j. j < m \<Longrightarrow> has (urls w) (candidate (\<lambda>k. random w (Suc k)) j)"
    by blast
  let ?r = "generated_record url m w"
  have p: "parses url" using a by simp
  have e: "\<not> truthy (Some '''')" and o: "\<not> truthy None" by (simp_all add: truthy_def)
  from shortenUrl_generated_first [of parses url "Some ''''" w m, OF p e m] obtain w' where w':
    "shortenUrl parses url (Some '''') w = Some (Inr ?r, w')"
    "urls w' = urls w @ [(candidate (\<lambda>k. random w (Suc k)) m, ?r)]" by blast
  from shortenUrl_generated_first [of parses url None w m, OF p o m] obtain w'' where w'':
    "shortenUrl parses url None w = Some (Inr ?r, w'')" by blast
  have c: "shortCode ?r = candidate (\<lambda>k. random w (Suc k)) m"
    and f: "customCode ?r = Some False"
    by (simp_all add: generated_record_def)
  have "map_of (urls w') (shortCode ?r) = Some ?r"
    using m(1) by (simp add: w'(2) c has_def map_add_Some_iff)
  moreover have "length (shortCode ?r) = 6 \<and> list_all alphanumeric (shortCode ?r)"
    using a by (intro generated_record_code) simp
  moreover have "\<not> has (urls w) (shortCode ?r)" using m(1) by (simp add: c)
  ultimately show "\<exists>r w' w''. shortenUrl parses url (Some '''') w = Some (Inr r, w') \<and>
         shortenUrl parses url None w = Some (Inr r, w'') \<and>
         customCode r = Some False \<and>
         length (shortCode r) = 6 \<and> list_all alphanumeric (shortCode r) \<and>
         \<not> has (urls w) (shortCode r) \<and> map_of (urls w') (shortCode r) = Some r"
    using w'(1) w'' f by blast
next
  assume "\<not> parses bad"
  then show "\<exists>w'. shortenUrl parses bad custom w = Some (Inl InvalidUrl, w') \<and> urls w' = urls w"
    by (simp add: shortenUrl_def isValidUrl_def Let_def)
qed

theorem empty_custom_code_is_omitted_witness:
  "example_parser ''https://example.com'' \<and>
   floor62 (random world0 5) < 62 \<and>
   \<not> has (urls world0) (candidate (\<lambda>k. random world0 (Suc k)) 0) \<and>
   (\<exists>r w' w''. shortenUrl example_parser ''https://example.com'' (Some '''') world0 = Some (Inr r, w') \<and>
         shortenUrl example_parser ''https://example.com'' None world0 = Some (Inr r, w'') \<and>
         customCode r = Some False \<and> length (shortCode r) = 6) \<and>
   \<not> example_parser ''not a url'' \<and>
   (\<exists>w'. shortenUrl example_parser ''not a url'' (Some ''ab'') world0 = Some (Inl InvalidUrl, w'))"
proof -
  have 1: "example_parser ''https://example.com''" by (simp add: example_parser_def)
  have 2: "\<forall>k. floor62 (random world0 k) < 62" by (simp add: world0_def)
  have 3: "\<not> has (urls world0) (candidate (\<lambda>k. random world0 (Suc k)) 0)"
    by (simp add: world0_def has_def)
  have 4: "\<not> example_parser ''not a url''" by (simp add: example_parser_def)
  show ?thesis
    using 1 2 3 4
      empty_custom_code_is_omitted [of example_parser "''https://example.com''" world0 0
        "''not a url''" "Some ''ab''"]
    by blast
qed

text \<open>
  Claim C3. (as amended) For a URL that parses, a custom code that is not
  empty and does not pass the test fails with the error of the code's format, and one
  that passes it and is in the mapping fails with the error of a code that exists; the
  mapping stays as it was.
\<close>

theorem custom_code_checked:
  assumes "parses url"
  shows "(c \<noteq> [] \<and> \<not> isValidShortCode c \<longrightarrow>
            (\<exists>w'. shortenUrl parses url (Some c) w = Some (Inl InvalidShortCode, w') \<and>
                   urls w' = urls w)) \<and>
         (isValidShortCode c \<and> has (urls w) c \<longrightarrow>
            (\<exists>w'. shortenUrl parses url (Some c) w = Some (Inl ShortCodeTaken, w') \<and>
                   urls w' = urls w))"
  using assms by (auto simp: shortenUrl_def isValidUrl_def Let_def isValidShortCode_def)

theorem custom_code_checked_witness:
  "example_parser ''https://example.com'' \<and>
   ''a-b'' \<noteq> [] \<and> \<not> isValidShortCode ''a-b'' \<and>
   (\<exists>w'. shortenUrl example_parser ''https://example.com'' (Some ''a-b'') world1 =
           Some (Inl InvalidShortCode, w') \<and> urls w' = urls world1) \<and>
   isValidShortCode ''docs'' \<and> has (urls world1) ''docs'' \<and>
   (\<exists>w'. shortenUrl example_parser ''https://example.com'' (Some ''docs'') world1 =
           Some (Inl ShortCodeTaken, w') \<and> urls w' = urls world1)"
proof -
  have 1: "example_parser ''https://example.com''" by (simp add: example_parser_def)
  have 2: "\<not> isValidShortCode ''a-b''" by (simp add: isValidShortCode_def alphanumeric_def)
  have 3: "isValidShortCode ''docs''" by (simp add: isValidShortCode_def alphanumeric_def)
  have 4: "has (urls world1) ''docs''" by (simp add: world1_def has_def)
  show ?thesis
    using 1 2 3 4
      custom_code_checked [of example_parser "''https://example.com''" "''a-b''" world1, OF 1]
      custom_code_checked [of example_parser "''https://example.com''" "''docs''" world1, OF 1]
    by blast
qed

text \<open>
  As the claim is stated it fails twice: the empty string does not pass the test and the
  call succeeds with a generated code; and with a URL that does not parse, a custom code
  that does not pass the test fails with the error of the URL.
\<close>

theorem custom_code_checked_counterexample:
  "\<not> isValidShortCode '''' \<and>
   map_option fst (shortenUrl example_parser ''https://example.com'' (Some '''') world0) =
     Some (Inr \<lparr>id_url = ''r'', originalUrl = ''https://example.com'', shortCode = ''bcdefg'',
                 customCode = Some False, createdAt = 2, clicks = 0, lastAccessed = None,
                 clickHistory = []\<rparr>) \<and>
   \<not> isValidShortCode ''ab'' \<and>
   map_option fst (shortenUrl example_parser ''not a url'' (Some ''ab'') world0) =
     Some (Inl InvalidUrl)"
proof -
  have e: "\<not> truthy (Some '''')" by (simp add: truthy_def)
  have 1: "example_parser ''https://example.com''" by (simp add: example_parser_def)
  have 3: "\<not> has (urls world0) (candidate (\<lambda>k. random world0 (Suc k)) 0)"
    by (simp add: world0_def has_def)
  from shortenUrl_generated_first [of example_parser "''https://example.com''" "Some ''''" world0 0,
      OF 1 e 3]
  have "map_option fst (shortenUrl example_parser ''https://example.com'' (Some '''') world0) =
     Some (Inr (generated_record ''https://example.com'' 0 world0))"
    by auto
  moreover have "generated_record ''https://example.com'' 0 world0 =
      \<lparr>id_url = ''r'', originalUrl = ''https://example.com'', shortCode = ''bcdefg'',
                 customCode = Some False, createdAt = 2, clicks = 0, lastAccessed = None,
                 clickHistory = []\<rparr>"
    by (simp add: generated_record_def world0_def candidate_def charAt_def chars_def)
  moreover have "map_option fst (shortenUrl example_parser ''not a url'' (Some ''ab'') world0) =
     Some (Inl InvalidUrl)"
    by (simp add: shortenUrl_def isValidUrl_def example_parser_def Let_def)
  ultimately show ?thesis by (simp add: isValidShortCode_def)
qed

section \<open>Clicks\<close>

lemma slice_last_slice_last: "slice_last n (slice_last n xs @ ys) = slice_last n (xs @ ys)"
proof (cases "length xs \<le> n")
  case True
  then show ?thesis by (simp add: slice_last_def)
next
  case False
  then have "length xs + length ys - (length xs - n + n) + (length xs - n) =
             length xs + length ys - n"
    by arith
  with False show ?thesis by (simp add: slice_last_def)
qed

lemma slice_last_short: "length xs \<le> n \<Longrightarrow> slice_last n xs = xs"
  by (simp add: slice_last_def)

lemma map_of_update_same: "map_of (AList.update k v m) k = Some v"
  by (simp add: update_conv')

lemma recordClick_present:
  assumes "map_of (urls w) code = Some u"
  shows "fst (recordClick code ua rf w) = True \<and>
         urls (snd (recordClick code ua rf w)) =
           AList.update code
             (u\<lparr>clicks := clicks u + 1, lastAccessed := Some (clock w 1),
                clickHistory := slice_last 100 (clickHistory u @ [pushed ua rf w])\<rparr>) (urls w)"
  using assms
  by (simp add: recordClick_def new_Date_def Let_def saveToStorage_urls pushed_def
      slice_last_short eval_nat_numeral)

lemma recordClicks_present:
  assumes "map_of (urls w) code = Some u"
  shows "\<exists>u'. map_of (urls (recordClicks code cs w)) code = Some u' \<and>
           clicks u' = clicks u + length cs \<and>
           clickHistory u' =
             (if cs = [] then clickHistory u
              else slice_last 100 (clickHistory u @ clickEvents code cs w)) \<and>
           id_url u' = id_url u \<and> originalUrl u' = originalUrl u \<and>
           shortCode u' = shortCode u \<and> customCode u' = customCode u \<and>
           createdAt u' = createdAt u"
  using assms
proof (induction cs arbitrary: w u)
  case Nil
  then show ?case by simp
next
  case (Cons c cs)
  obtain ua rf where c: "c = (ua, rf)" by (cases c)
  let ?u1 = "u\<lparr>clicks := clicks u + 1, lastAccessed := Some (clock w 1),
                clickHistory := slice_last 100 (clickHistory u @ [pushed ua rf w])\<rparr>"
  let ?w1 = "snd (recordClick code ua rf w)"
  have "map_of (urls ?w1) code = Some ?u1"
    using recordClick_present [OF Cons.prems, of ua rf] by (simp add: map_of_update_same)
  from Cons.IH [OF this] obtain u' where u':
    "map_of (urls (recordClicks code cs ?w1)) code = Some u'"
    "clicks u' = clicks ?u1 + length cs"
    "clickHistory u' =
       (if cs = [] then clickHistory ?u1
        else slice_last 100 (clickHistory ?u1 @ clickEvents code cs ?w1))"
    "id_url u' = id_url ?u1" "originalUrl u' = originalUrl ?u1"
    "shortCode u' = shortCode ?u1" "customCode u' = customCode ?u1"
    "createdAt u' = createdAt ?u1"
    by blast
  have "clickHistory u' = slice_last 100 (clickHistory u @ pushed ua rf w # clickEvents code cs ?w1)"
    using u'(3) slice_last_slice_last [of 100 "clickHistory u @ [pushed ua rf w]" "clickEvents code cs ?w1"]
    by (simp split: if_splits)
  with u' show ?case by (simp add: c)
qed

lemma clickEvents_args:
  "map (\<lambda>e. (userAgent e, referrer e)) (clickEvents code cs w) = cs"
  by (induction cs arbitrary: w) (auto simp: pushed_def)

lemma length_clickEvents: "length (clickEvents code cs w) = length cs"
  by (induction cs arbitrary: w) auto

text \<open>
  Claim C1. A record that has no click yet has, after any number of
  clicks, a count equal to that number and a history made of the last 100 click events,
  oldest first; after 150 clicks the count is 150 and the history holds the 100 latest
  events.
\<close>

theorem click_history_keeps_last_100:
  assumes "map_of (urls w) code = Some u" and "clicks u = 0" and "clickHistory u = []"
  shows "\<exists>u'. map_of (urls (recordClicks code cs w)) code = Some u' \<and>
           clicks u' = length cs \<and>
           clickHistory u' = drop (length cs - 100) (clickEvents code cs w) \<and>
           length (clickHistory u') = min 100 (length cs) \<and>
           map (\<lambda>e. (userAgent e, referrer e)) (clickEvents code cs w) = cs \<and>
           (length cs = 150 \<longrightarrow>
              clicks u' = 150 \<and> length (clickHistory u') = 100 \<and>
              clickHistory u' = drop 50 (clickEvents code cs w))"
proof -
  from recordClicks_present [OF assms(1), of cs] obtain u' where u':
    "map_of (urls (recordClicks code cs w)) code = Some u'"
    "clicks u' = clicks u + length cs"
    "clickHistory u' =
       (if cs = [] then clickHistory u
        else slice_last 100 (clickHistory u @ clickEvents code cs w))"
    by blast
  have h: "clickHistory u' = drop (length cs - 100) (clickEvents code cs w)"
    using u'(3) assms(3) by (simp add: slice_last_def length_clickEvents)
  have "length (clickHistory u') = min 100 (length cs)"
    by (simp add: h length_clickEvents)
  with u' h assms(2) show ?thesis
    by (auto simp: clickEvents_args)
qed

theorem click_history_keeps_last_100_witness:
  "map_of (urls world1) ''docs'' = Some docs_record \<and> clicks docs_record = 0 \<and>
   clickHistory docs_record = [] \<and>
   length (replicate 150 (Some ''agent'', None :: string option)) = 150 \<and>
   (\<exists>u'. map_of (urls (recordClicks ''docs'' (replicate 150 (Some ''agent'', None)) world1)) ''docs'' =
           Some u' \<and>
         clicks u' = 150 \<and> length (clickHistory u') = 100 \<and>
         clickHistory u' =
           drop 50 (clickEvents ''docs'' (replicate 150 (Some ''agent'', None)) world1))"
proof -
  have 1: "map_of (urls world1) ''docs'' = Some docs_record" by (simp add: world1_def)
  have 2: "clicks docs_record = 0" and 3: "clickHistory docs_record = []"
    by (simp_all add: docs_record_def)
  show ?thesis
    using 1 2 3
      click_history_keeps_last_100 [OF 1 2 3, of "replicate 150 (Some ''agent'', None)"]
    by auto
qed

text \<open>
  Claim C7. A click on a code that is not in the mapping returns false and
  leaves the mapping as it was, so with the same number of records; the newest log entry
  is the warning of the failed click.
\<close>

theorem click_on_unknown_code:
  assumes "\<not> has (urls w) code"
  shows "fst (recordClick code ua rf w) = False \<and>
         urls (snd (recordClick code ua rf w)) = urls w \<and>
         length (urls (snd (recordClick code ua rf w))) = length (urls w) \<and>
         map call_of (take 1 (getLogs (snd (recordClick code ua rf w)))) =
           [(WARN, ''Cannot record click - URL not found'',
             Some [(''shortCode'', JString code)], Some ''CLICK_RECORD_FAILED'')]"
proof -
  let ?w1 = "info ''Click recording requested''
                 (Some [(''shortCode'', JString code), (''hasUserAgent'', JBoolean (truthy ua)),
                        (''hasReferrer'', JBoolean (truthy rf))])
                 (Some ''RECORD_CLICK'') w"
  let ?c = "(WARN, ''Cannot record click - URL not found'',
             Some [(''shortCode'', JString code)], Some ''CLICK_RECORD_FAILED'')"
  have r: "recordClick code ua rf w = (False, log_at ?c ?w1)"
    using assms by (simp add: recordClick_def Let_def has_def)
  have "map call_of (take 1 (logs (log_at ?c ?w1))) = [?c]"
    by (simp add: log_at_logs maxLogs_def call_of_logged del: log_at.simps)
  then show ?thesis by (simp add: r getLogs_def log_at_frame del: log_at.simps)
qed

theorem click_on_unknown_code_witness:
  "\<not> has (urls world1) ''gone'' \<and>
   recordClick ''gone'' None None world1 = (False, snd (recordClick ''gone'' None None world1)) \<and>
   urls (snd (recordClick ''gone'' None None world1)) = [(''docs'', docs_record)]"
proof -
  have 1: "\<not> has (urls world1) ''gone''" by (simp add: world1_def has_def)
  show ?thesis
    using 1 click_on_unknown_code [OF 1, of None None]
    by (simp add: world1_def prod_eq_iff)
qed

section \<open>Deleting\<close>

lemma has_delete: "\<not> has (AList.delete k m) k"
  by (simp add: has_def delete_conv')

lemma deleteUrl_urls: "urls (snd (deleteUrl code w)) = AList.delete code (urls w)"
  by (simp add: deleteUrl_def Let_def saveToStorage_urls has_def map_of_eq_None_iff delete_id)

text \<open>
  Claim C6. Looking a code up after deleting it finds nothing, and
  \<^verbatim>\<open>deleteUrl\<close> returns whether the code was in the mapping (false for
  a code that was not there).
\<close>

theorem delete_then_lookup:
  "fst (getUrl code (snd (deleteUrl code w))) = None \<and>
   fst (deleteUrl code w) = has (urls w) code \<and>
   urls (snd (deleteUrl code w)) = AList.delete code (urls w)"
proof -
  have "map_of (urls (snd (deleteUrl code w))) code = None"
    using has_delete [of code "urls w"] by (simp add: deleteUrl_urls has_def)
  then have "fst (getUrl code (snd (deleteUrl code w))) = None"
    by (simp add: getUrl_def Let_def)
  moreover have "fst (deleteUrl code w) = has (urls w) code"
    by (simp add: deleteUrl_def Let_def)
  ultimately show ?thesis by (simp add: deleteUrl_urls)
qed

section \<open>Statistics\<close>

lemma length_insert_by: "length (insert_by cmp x xs) = Suc (length xs)"
  by (induction xs) simp_all

lemma set_insert_by: "set (insert_by cmp x xs) = insert x (set xs)"
  by (induction xs) auto

lemma sum_insert_by: "sum_list (map f (insert_by cmp x xs)) = f x + sum_list (map f xs)"
  for f :: "'a \<Rightarrow> nat"
  by (induction xs) simp_all

lemma length_sort_by: "length (sort_by cmp xs) = length xs"
  by (induction xs) (simp_all add: sort_by_def length_insert_by)

lemma set_sort_by: "set (sort_by cmp xs) = set xs"
  by (induction xs) (simp_all add: sort_by_def set_insert_by)

lemma sum_sort_by: "sum_list (map f (sort_by cmp xs)) = sum_list (map f xs)"
  for f :: "'a \<Rightarrow> nat"
  by (induction xs) (simp_all add: sort_by_def sum_insert_by)

lemma sorted_insert_by:
  fixes key :: "'a \<Rightarrow> nat"
  assumes "sorted_wrt (\<lambda>a b. key b \<le> key a) xs"
  shows "sorted_wrt (\<lambda>a b. key b \<le> key a) (insert_by (\<lambda>a b. int (key b) - int (key a)) x xs)"
  using assms by (induction xs) (auto simp: set_insert_by)

lemma sorted_sort_by:
  "sorted_wrt (\<lambda>a b. key b \<le> key a) (sort_by (\<lambda>a b. int (key b) - int (key a)) xs)"
  for key :: "'a \<Rightarrow> nat"
  by (induction xs) (simp_all add: sort_by_def sorted_insert_by)

lemma foldl_clicks: "foldl (\<lambda>sum u. sum + clicks u) n xs = n + sum_list (map clicks xs)"
  by (induction xs arbitrary: n) simp_all

lemma getAllUrls_fst:
  "fst (getAllUrls w) = sort_by (\<lambda>a b. createdAt b - createdAt a) (map snd (urls w))"
  by (simp add: getAllUrls_def)

lemma getStats_fst:
  "fst (getStats w) =
     (let allUrls = sort_by (\<lambda>a b. createdAt b - createdAt a) (map snd (urls w)) in
      \<lparr>totalUrls = length allUrls,
       totalClicks = foldl (\<lambda>sum u. sum + clicks u) 0 allUrls,
       topUrls = take 10 (sort_by (\<lambda>a b. int (clicks b) - int (clicks a))
                            (filter (\<lambda>u. clicks u > 0) allUrls)),
       recentActivity =
         take 10 (sort_by (\<lambda>a b. the (lastAccessed b) - the (lastAccessed a))
                    (filter (\<lambda>u. lastAccessed u \<noteq> None) allUrls))\<rparr>)"
  by (simp add: getStats_def getAllUrls_def Let_def)

lemma getStats_urls: "urls (snd (getStats w)) = urls w"
  by (simp add: getStats_def getAllUrls_def Let_def)

text \<open>
  Claim C8. \<^verbatim>\<open>topUrls\<close> has at most 10 entries, each a record of
  the mapping with at least one click, in descending order of clicks.
\<close>

theorem top_urls_sorted:
  "length (topUrls (fst (getStats w))) \<le> 10 \<and>
   list_all (\<lambda>u. 0 < clicks u) (topUrls (fst (getStats w))) \<and>
   sorted_wrt (\<lambda>a b. clicks a \<ge> clicks b) (topUrls (fst (getStats w))) \<and>
   set (topUrls (fst (getStats w))) \<subseteq> snd ` set (urls w)"
proof -
  let ?all = "sort_by (\<lambda>a b. createdAt b - createdAt a) (map snd (urls w))"
  let ?pos = "filter (\<lambda>u. clicks u > 0) ?all"
  let ?top = "take 10 (sort_by (\<lambda>a b. int (clicks b) - int (clicks a)) ?pos)"
  have t: "topUrls (fst (getStats w)) = ?top" by (simp add: getStats_fst Let_def)
  have s: "set ?top \<subseteq> set ?pos"
    using set_take_subset [of 10 "sort_by (\<lambda>a b. int (clicks b) - int (clicks a)) ?pos"]
    by (simp only: set_sort_by)
  have "length ?top \<le> 10" by simp
  moreover have "list_all (\<lambda>u. 0 < clicks u) ?top"
    unfolding list_all_iff using s by auto
  moreover have "sorted_wrt (\<lambda>a b. clicks a \<ge> clicks b) ?top"
    by (rule sorted_wrt_take) (rule sorted_sort_by)
  moreover have "set ?top \<subseteq> snd ` set (urls w)"
    using s by (auto simp: set_sort_by)
  ultimately show ?thesis unfolding t by blast
qed

lemma generateUnique_urls:
  assumes "generateUnique w = Some y"
  shows "urls (snd y) = urls w"
  by (rule generateUnique.raw_induct [where P = "\<lambda>w y. urls (snd y) = urls w", OF _ assms])
     (auto simp: generateShortCode_eq split: if_splits)

lemma generatedCode_urls:
  "generatedCode w = Some (code, w') \<Longrightarrow> urls w' = urls w"
  by (auto simp: generatedCode_def split: option.splits dest: generateUnique_urls)

lemma storeUrl_urls:
  "\<exists>r. urls (snd (storeUrl url custom code w)) = AList.update code r (urls w)"
  by (simp add: storeUrl_def Math_random_def new_Date_def Let_def saveToStorage_urls) blast

lemma storeUrl_urls':
  assumes "storeUrl url custom code v = (res, w')"
  shows "\<exists>r. urls w' = AList.update code r (urls v)"
  using storeUrl_urls [of url custom code v] assms by simp

lemma shortenUrl_urls:
  assumes "shortenUrl parses url custom w = Some (res, w')"
  shows "urls w' = urls w \<or> (\<exists>code r. urls w' = AList.update code r (urls w))"
  using assms
  by (auto simp: shortenUrl_def Let_def split: if_splits option.splits
      dest!: storeUrl_urls' generatedCode_urls) blast+

lemma perform_distinct:
  assumes "perform parses x w = Some w'" and "distinct (map fst (urls w))"
  shows "distinct (map fst (urls w'))"
proof (cases x)
  case (Shorten url custom)
  with assms(1) obtain res where "shortenUrl parses url custom w = Some (res, w')" by auto
  from shortenUrl_urls [OF this] assms(2) show ?thesis by (auto simp: distinct_update)
next
  case (RecordClick code ua rf)
  have "urls (snd (recordClick code ua rf w)) = urls w \<or>
        (\<exists>u. urls (snd (recordClick code ua rf w)) = AList.update code u (urls w))"
    by (auto simp: recordClick_def Let_def new_Date_def saveToStorage_urls split: option.splits)
  with assms RecordClick show ?thesis by (auto simp: distinct_update)
next
  case (Delete code)
  with assms show ?thesis by (auto simp: deleteUrl_urls distinct_delete)
qed

lemma perform_all_distinct:
  "perform_all parses xs w = Some w' \<Longrightarrow> distinct (map fst (urls w)) \<Longrightarrow>
   distinct (map fst (urls w'))"
  by (induction xs arbitrary: w) (auto split: option.splits dest: perform_distinct)

text \<open>
  Claim C5. After any sequence of shortenings, clicks and deletions that
  returns, \<^verbatim>\<open>totalClicks\<close> is the sum of the clicks of the records that
  \<^verbatim>\<open>getAllUrls\<close> returns (before or after the statistics are taken),
  which is the sum over the mapping, and \<^verbatim>\<open>totalUrls\<close> is the number
  of records in the mapping.
\<close>

theorem stats_totals:
  assumes "distinct (map fst (urls w))" and "perform_all parses ops w = Some w'"
  shows "totalClicks (fst (getStats w')) = sum_list (map clicks (fst (getAllUrls w'))) \<and>
         totalClicks (fst (getStats w')) =
           sum_list (map clicks (fst (getAllUrls (snd (getStats w'))))) \<and>
         totalClicks (fst (getStats w')) = sum_list (map (clicks \<circ> snd) (urls w')) \<and>
         totalUrls (fst (getStats w')) = length (urls w') \<and>
         totalUrls (fst (getStats w')) = card (dom (map_of (urls w')))"
proof -
  have d: "distinct (map fst (urls w'))" using assms by (auto dest: perform_all_distinct)
  have "card (dom (map_of (urls w'))) = length (urls w')"
    using distinct_card [OF d] by (simp add: dom_map_of_conv_image_fst)
  then show ?thesis
    by (simp add: getStats_fst getAllUrls_fst getStats_urls Let_def foldl_clicks sum_sort_by
        length_sort_by)
qed

theorem stats_totals_witness:
  "distinct (map fst (urls world0)) \<and>
   perform_all example_parser
     [Shorten ''https://example.com'' (Some ''docs''), RecordClick ''docs'' (Some ''agent'') None,
      Delete ''gone''] world0 \<noteq> None \<and>
   totalClicks (fst (getStats (the (perform_all example_parser
     [Shorten ''https://example.com'' (Some ''docs''), RecordClick ''docs'' (Some ''agent'') None,
      Delete ''gone''] world0)))) = 1 \<and>
   totalUrls (fst (getStats (the (perform_all example_parser
     [Shorten ''https://example.com'' (Some ''docs''), RecordClick ''docs'' (Some ''agent'') None,
      Delete ''gone''] world0)))) = 1"
proof -
  let ?ops = "[Shorten ''https://example.com'' (Some ''docs''),
               RecordClick ''docs'' (Some ''agent'') None, Delete ''gone'']"
  have d: "distinct (map fst (urls world0))" by (simp add: world0_def)
  have "example_parser ''https://example.com''" by (simp add: example_parser_def)
  moreover have "isValidShortCode ''docs''" by (simp add: isValidShortCode_def alphanumeric_def)
  moreover have "\<not> has (urls world0) ''docs''" by (simp add: world0_def has_def)
  ultimately obtain r w1 where s:
    "shortenUrl example_parser ''https://example.com'' (Some ''docs'') world0 = Some (Inr r, w1)"
    "urls w1 = urls world0 @ [(''docs'', r)]" "clicks r = 0"
    using shortenUrl_custom [of example_parser "''https://example.com''" "''docs''" world0]
    by blast
  let ?w2 = "snd (recordClick ''docs'' (Some ''agent'') None w1)"
  let ?w3 = "snd (deleteUrl ''gone'' ?w2)"
  have m: "map_of (urls w1) ''docs'' = Some r" by (simp add: s(2) world0_def)
  have p: "perform_all example_parser ?ops world0 = Some ?w3" by (simp add: s(1))
  have u: "map (clicks \<circ> snd) (urls ?w3) = [1]"
    using recordClick_present [OF m, of "Some ''agent''" None]
    by (simp add: deleteUrl_urls s(2,3) world0_def)
  have "length (urls ?w3) = 1"
    using u by (metis length_map length_Cons list.size(3) One_nat_def)
  with stats_totals [OF d p] u d show ?thesis unfolding p by simp
qed

end
